theory Spec2Isabelle
  imports Main
begin

text \<open>
  An \<open>ObjectPath\<close> is a branded JavaScript string; it is modelled as a \<open>string\<close>.
\<close>

type_synonym ObjectPath = string

section \<open>Diagnostics (diagnostic.ts)\<close>

text \<open>
  Modelled from the spec: the \<open>Severity\<close> enumeration (\<open>./severity\<close>) is not among
  the sources. The specification describes it as an ordered enumeration,
  \<open>Error < Warning < Info\<close>, where the lower ordinal is the more severe.
\<close>

datatype Severity = Error | Warning | Info

fun severity_ordinal :: "Severity \<Rightarrow> nat" where
  "severity_ordinal Error = 0"
| "severity_ordinal Warning = 1"
| "severity_ordinal Info = 2"

datatype DiagnosticData =
  DiagnosticData (dd_message: string) (dd_type: string) (dd_severity: Severity)
    (dd_next: "DiagnosticData option")

record Diagnostic =
  message :: string
  dtype :: string
  severity :: Severity
  "next" :: "DiagnosticData option"
  path :: ObjectPath

text \<open>
  lodash \<open>sortBy(collection, iteratee)\<close> is a stable ascending sort by the iteratee's
  value; \<open>sort_key\<close> is the stable insertion sort of the HOL library.
\<close>

definition sortBy :: "'a list \<Rightarrow> ('a \<Rightarrow> nat) \<Rightarrow> 'a list" where
  "sortBy xs f = sort_key f xs"

text \<open>
  The argument is \<open>Diagnostic[] | undefined\<close>; \<open>None\<close> is \<open>undefined\<close>. The result is
  \<open>Severity | null\<close>; \<open>None\<close> is \<open>null\<close>. The guard makes the list non-empty before
  element \<open>0\<close> of the sorted copy is read.
\<close>

definition maxSeverity :: "Diagnostic list option \<Rightarrow> Severity option" where
  "maxSeverity diagnostics =
     (case diagnostics of
        None \<Rightarrow> None
      | Some ds \<Rightarrow>
          if ds = [] then None
          else Some (severity (sortBy ds (\<lambda>d. severity_ordinal (severity d)) ! 0)))"

text \<open>
  The specification's reading of \<open>maxSeverity\<close>, for comparison with the code: the
  diagnostic entry with the lowest severity ordinal, the first one of a stable sort.
\<close>

definition maxSeverity_spec :: "Diagnostic list option \<Rightarrow> Diagnostic option" where
  "maxSeverity_spec dgs =
     (case dgs of
        None \<Rightarrow> None
      | Some ds \<Rightarrow>
          if ds = [] then None
          else Some (sortBy ds (\<lambda>d. severity_ordinal (severity d)) ! 0))"

section \<open>Entity (entity.ts)\<close>

text \<open>
  The entity is generic in \<open>T\<close>, and \<open>latestValue\<close> depends on the truthiness of the
  draft, so the values of \<open>T | null | undefined\<close> are modelled as JavaScript values.
  Numbers are modelled as integers.
\<close>

datatype jsval =
  JNull
| JUndefined
| JBool bool
| JNum int
| JStr string
| JObj "(string \<times> jsval) list"

fun truthy :: "jsval \<Rightarrow> bool" where
  "truthy JNull = False"
| "truthy JUndefined = False"
| "truthy (JBool b) = b"
| "truthy (JNum n) = (n \<noteq> 0)"
| "truthy (JStr s) = (s \<noteq> [])"
| "truthy (JObj kvs) = True"

text \<open>The optional flags \<open>isSaving?\<close> and \<open>isDeleting?\<close> are \<open>None\<close> when absent.\<close>

record Entity =
  draft :: jsval
  saved :: jsval
  diagnostics :: "Diagnostic list"
  isSaving :: "bool option"
  isDeleting :: "bool option"

definition isNew :: "Entity \<Rightarrow> bool" where
  "isNew entity = (saved entity = JNull)"

definition isSaved :: "Entity \<Rightarrow> bool" where
  "isSaved entity = (saved entity \<noteq> JNull)"

text \<open>\<open>entity.draft || entity.saved\<close>: the draft when it is truthy, else the saved value.\<close>

definition latestValue :: "Entity \<Rightarrow> jsval" where
  "latestValue entity = (if truthy (draft entity) then draft entity else saved entity)"

definition hasErrors :: "Entity \<Rightarrow> bool" where
  "hasErrors entity = list_ex (\<lambda>d. severity d = Error) (diagnostics entity)"

definition createUnsaved :: "jsval \<Rightarrow> Entity" where
  "createUnsaved d =
     \<lparr>draft = d, saved = JNull, diagnostics = [], isSaving = None, isDeleting = None\<rparr>"

definition createSaved :: "jsval \<Rightarrow> Entity" where
  "createSaved v =
     \<lparr>draft = JNull, saved = v, diagnostics = [], isSaving = None, isDeleting = None\<rparr>"

text \<open>The mode invariant of the entity: draft and saved are never both null.\<close>

definition mode_invariant :: "Entity \<Rightarrow> bool" where
  "mode_invariant e = (\<not> (draft e = JNull \<and> saved e = JNull))"

text \<open>
  The entities on which \<open>latestValue\<close> is their draft or, without a draft, their saved
  value: the mode invariant holds and a draft, when there is one, is truthy.
\<close>

definition entity_ok :: "Entity \<Rightarrow> bool" where
  "entity_ok e = (mode_invariant e \<and> (draft e = JNull \<or> truthy (draft e)))"

section \<open>The entity hook (util.ts, useEntity.ts)\<close>

definition isNonVoid :: "jsval \<Rightarrow> bool" where
  "isNonVoid v = (v \<noteq> JNull \<and> v \<noteq> JUndefined)"

text \<open>
  A validator is a function; the hook compares validators by reference, so a validator
  carries an identity next to the function it runs.
\<close>

record Validator =
  vid :: nat
  run :: "jsval \<Rightarrow> Diagnostic list"

definition noValidations :: Validator where
  "noValidations = \<lparr>vid = 0, run = (\<lambda>_. [])\<rparr>"

text \<open>
  The state of one hook instance: the React state \<open>inner\<close> and the three refs
  \<open>liveEntity\<close>, \<open>liveValidator\<close> and \<open>isUnmounted\<close>. \<open>setInner\<close> stores the next
  state; the refs change only when the hook body runs again (\<open>useEntity_render\<close>) or
  the effect's cleanup runs (\<open>unmount\<close>).
\<close>

record hook =
  inner :: Entity
  liveEntity :: Entity
  liveValidator :: Validator
  isUnmounted :: bool

definition setInner :: "Entity \<Rightarrow> hook \<Rightarrow> hook" where
  "setInner e s = s\<lparr>inner := e\<rparr>"

text \<open>The first call of the hook body.\<close>

definition useEntity :: "jsval \<Rightarrow> bool \<Rightarrow> Validator \<Rightarrow> hook" where
  "useEntity initialValue is_saved validator =
     (let e = (if is_saved then createSaved initialValue else createUnsaved initialValue)
                \<lparr>diagnostics := run validator initialValue\<rparr>
      in \<lparr>inner = e, liveEntity = e, liveValidator = validator, isUnmounted = False\<rparr>)"

text \<open>
  A later call of the hook body with the validator passed on that render. A changed
  validator is stored and the entity revalidated, which renders once more with the same
  validator; then \<open>liveEntity.current\<close> is the state.
\<close>

definition useEntity_render :: "Validator \<Rightarrow> hook \<Rightarrow> hook" where
  "useEntity_render validator s =
     (let s1 = (if vid validator \<noteq> vid (liveValidator s)
                then setInner ((inner s)\<lparr>diagnostics := run validator (latestValue (inner s))\<rparr>)
                       (s\<lparr>liveValidator := validator\<rparr>)
                else s)
      in s1\<lparr>liveEntity := inner s1\<rparr>)"

definition unmount :: "hook \<Rightarrow> hook" where
  "unmount s = s\<lparr>isUnmounted := True\<rparr>"

definition update :: "jsval \<Rightarrow> hook \<Rightarrow> hook" where
  "update newValue s =
     setInner ((liveEntity s)\<lparr>draft := newValue,
                 diagnostics := run (liveValidator s) newValue\<rparr>) s"

definition updateSaved :: "jsval \<Rightarrow> hook \<Rightarrow> hook" where
  "updateSaved v s = setInner ((liveEntity s)\<lparr>saved := v\<rparr>) s"

definition setSaving :: "bool \<Rightarrow> hook \<Rightarrow> hook" where
  "setSaving b s = setInner ((liveEntity s)\<lparr>isSaving := Some b\<rparr>) s"

text \<open>
  How a promise settles: \<open>savePromise\<close> resolves with a value of
  \<open>T | undefined | void\<close> or rejects with an error value; the promise returned by
  \<open>save\<close> resolves with \<open>undefined\<close> or rejects.
\<close>

datatype settled = Resolved jsval | Rejected jsval

text \<open>
  \<open>save\<close> up to its \<open>await\<close>: the value captured at save time and the state with
  \<open>isSaving\<close> set.
\<close>

definition save_begin :: "hook \<Rightarrow> jsval \<times> hook" where
  "save_begin s =
     (let valueAtSaveTime = latestValue (liveEntity s)
      in (valueAtSaveTime, setInner ((liveEntity s)\<lparr>isSaving := Some True\<rparr>) s))"

text \<open>
  \<open>save\<close> from the moment \<open>savePromise\<close> settles, in the state the hook has then: the
  new state and how the promise returned by \<open>save\<close> settles. The \<open>catch\<close> block ends
  with \<open>throw e\<close> on every path.
\<close>

definition save_settle :: "jsval \<Rightarrow> settled \<Rightarrow> hook \<Rightarrow> hook \<times> settled" where
  "save_settle valueAtSaveTime outcome s =
     (case outcome of
        Resolved fromPromise \<Rightarrow>
          if isUnmounted s then (s, Resolved JUndefined)
          else
            let current = liveEntity s;
                saved_value = (if isNonVoid fromPromise then fromPromise else valueAtSaveTime)
            in (setInner (current\<lparr>isSaving := Some False, draft := JNull,
                            saved := saved_value,
                            diagnostics := run (liveValidator s) saved_value\<rparr>) s,
                Resolved JUndefined)
      | Rejected e \<Rightarrow>
          ((if \<not> isUnmounted s
            then setInner ((liveEntity s)\<lparr>isSaving := Some False\<rparr>) s
            else s),
           Rejected e))"

text \<open>
  A whole call of \<open>save\<close> whose promise settles after the re-render that follows
  \<open>setInner\<close> and after the events \<open>between\<close> (each followed by its re-render).
\<close>

definition save :: "Validator \<Rightarrow> settled \<Rightarrow> (hook \<Rightarrow> hook) \<Rightarrow> hook \<Rightarrow> hook \<times> settled" where
  "save validator outcome between s =
     (let (valueAtSaveTime, s1) = save_begin s;
          s2 = between (useEntity_render validator s1)
      in save_settle valueAtSaveTime outcome s2)"

section \<open>ObjectPath (objectPath.ts)\<close>

text \<open>
  A path part is \<open>string | number\<close>; numeric parts are array indices and are modelled
  as integers. The template literal \<^verbatim>\<open>`[${part}]`\<close> renders a number as JavaScript's
  \<open>Number::toString\<close> does: for a safe integer (at most \<open>2^53 - 1\<close> in absolute value)
  that is its decimal text, which \<open>number_to_string\<close> computes. Beyond that range a
  number is not every integer, its text is the shortest one that reads back as the same
  double, and from \<open>1e21\<close> on it is in exponent form (\<open>1.5e21\<close> gives \<open>"1.5e+21"\<close>);
  \<open>number_to_string\<close> is the code's rendering only of the safe integers, and what is
  proved about the text of a number is proved for those.
\<close>

datatype part = PStr string | PNum int

definition EMPTY :: ObjectPath where
  "EMPTY = []"

definition DELIMITER :: char where
  "DELIMITER = CHR ''.''"

definition digit_char :: "nat \<Rightarrow> char" where
  "digit_char d = char_of (48 + d)"

fun nat_to_string :: "nat \<Rightarrow> string" where
  "nat_to_string n =
     (if n < 10 then [digit_char n] else nat_to_string (n div 10) @ [digit_char (n mod 10)])"

definition number_to_string :: "int \<Rightarrow> string" where
  "number_to_string i =
     (if i < 0 then CHR ''-'' # nat_to_string (nat (- i)) else nat_to_string (nat i))"



definition is_digit :: "char \<Rightarrow> bool" where
  "is_digit c = (48 \<le> (of_char c :: nat) \<and> (of_char c :: nat) \<le> 57)"

text \<open>The regular expression \<^verbatim>\<open>/^\d+$/\<close>: one or more digits and nothing else.\<close>

definition all_digits :: "string \<Rightarrow> bool" where
  "all_digits s = (s \<noteq> [] \<and> list_all is_digit s)"

fun createPart :: "part \<Rightarrow> ObjectPath" where
  "createPart (PStr s) =
     (if s = [] then EMPTY
      else if all_digits s then ''['' @ s @ '']''
      else s @ [DELIMITER])"
| "createPart (PNum i) = ''['' @ number_to_string i @ '']''"

text \<open>\<open>String.prototype.endsWith\<close> and \<open>startsWith\<close> with a one-character argument.\<close>

definition endsWith_char :: "string \<Rightarrow> char \<Rightarrow> bool" where
  "endsWith_char s c = (s \<noteq> [] \<and> last s = c)"

definition startsWith_char :: "string \<Rightarrow> char \<Rightarrow> bool" where
  "startsWith_char s c = (case s of [] \<Rightarrow> False | x # _ \<Rightarrow> x = c)"

definition concat_path :: "ObjectPath \<Rightarrow> ObjectPath \<Rightarrow> ObjectPath" where
  "concat_path left right =
     (if left = [] then right
      else if right = [] then left
      else
        let endsOnDelimiter = endsWith_char left DELIMITER;
            needsLeadingDelimiter = \<not> startsWith_char right CHR ''[''
        in if endsOnDelimiter \<and> \<not> needsLeadingDelimiter then butlast left @ right
           else if needsLeadingDelimiter \<and> \<not> endsOnDelimiter then left @ [DELIMITER] @ right
           else left @ right)"

definition extend :: "ObjectPath \<Rightarrow> part \<Rightarrow> ObjectPath" where
  "extend pth and_part = concat_path pth (createPart and_part)"

definition prefix_path :: "ObjectPath \<Rightarrow> part \<Rightarrow> ObjectPath" where
  "prefix_path pth prefixVal = concat_path (createPart prefixVal) pth"

text \<open>\<open>parts.reduce((s, v) => extend(s, v), EMPTY)\<close> is a left fold.\<close>

definition create :: "part list \<Rightarrow> ObjectPath" where
  "create parts = foldl extend EMPTY parts"

definition fromArray :: "part list \<Rightarrow> ObjectPath" where
  "fromArray parts = create parts"

text \<open>
  lodash \<open>trimEnd(string, chars)\<close> removes every trailing character that occurs in
  \<open>chars\<close>; with \<open>chars = DELIMITER\<close> it removes all trailing separators.
\<close>

definition trimEnd :: "string \<Rightarrow> char \<Rightarrow> string" where
  "trimEnd s c = rev (dropWhile (\<lambda>x. x = c) (rev s))"

definition toString :: "ObjectPath \<Rightarrow> string" where
  "toString pth = trimEnd pth DELIMITER"

text \<open>
  \<open>String.prototype.charAt\<close> returns the one-character string at the index, and the
  empty string when the index is out of range.
\<close>

definition charAt :: "string \<Rightarrow> nat \<Rightarrow> string" where
  "charAt s i = (if i < length s then [s ! i] else [])"

text \<open>
  \<open>ACCEPTABLE_SUFFIXES = [undefined, '.', '[']\<close>. \<open>indexOf\<close> compares with strict
  equality, and \<open>charAt\<close> always returns a string, so the \<open>undefined\<close> entry (\<open>None\<close>)
  is never equal to the searched value.
\<close>

definition ACCEPTABLE_SUFFIXES :: "string option list" where
  "ACCEPTABLE_SUFFIXES = [None, Some ''.'', Some ''['']"

definition string_startsWith :: "string \<Rightarrow> string \<Rightarrow> bool" where
  "string_startsWith s p = (take (length p) s = p)"

definition startsWith :: "ObjectPath \<Rightarrow> ObjectPath \<Rightarrow> bool" where
  "startsWith pth prefixVal =
     (if prefixVal = EMPTY then True
      else if endsWith_char prefixVal DELIMITER then
        (let trimmedPath = trimEnd prefixVal DELIMITER
         in if \<not> string_startsWith pth trimmedPath then False
            else let charAfter = charAt pth (length trimmedPath)
                 in Some charAfter \<in> set ACCEPTABLE_SUFFIXES)
      else string_startsWith pth prefixVal)"

subsection \<open>toArray: lodash toPath\<close>

text \<open>
  \<open>toArray\<close> hands the trimmed string to lodash's \<open>toPath\<close>, which for a string
  runs \<open>stringToPath\<close>: a leading \<open>'.'\<close> pushes an empty key, then every match of
  \<^verbatim>\<open>/[^.[\]]+|\[(?:(-?\d+(?:\.\d+)?)|(["'])((?:(?!\2)[^\\]|\\.)*?)\2)\]|(?=(?:\.|\[\])(?:\.|\[\]|$))/g\<close>
  pushes one key: the unescaped quoted text, or the bracketed number, or the match
  itself. lodash is a library outside the repository; the functions below follow that
  scan alternative by alternative. It returns every key as a string.
\<close>

definition is_prop_char :: "char \<Rightarrow> bool" where
  "is_prop_char c = (c \<noteq> CHR ''.'' \<and> c \<noteq> CHR ''['' \<and> c \<noteq> CHR '']'')"

definition BACKSLASH :: char where
  "BACKSLASH = CHR 0x5C"

definition is_quote :: "char \<Rightarrow> bool" where
  "is_quote c = (c = CHR 0x22 \<or> c = CHR 0x27)"

text \<open>The line terminators among the characters of \<open>char\<close>: line feed and carriage return.\<close>

definition is_line_terminator :: "char \<Rightarrow> bool" where
  "is_line_terminator c = (c = CHR 0x0A \<or> c = CHR 0x0D)"

text \<open>
  \<^verbatim>\<open>(-?\d+(?:\.\d+)?)\]\<close> on the text after the opening bracket: the number and how
  many characters were consumed, closing bracket included.
\<close>

definition match_number :: "string \<Rightarrow> (string \<times> nat) option" where
  "match_number r =
     (let sign = (if startsWith_char r CHR ''-'' then ''-'' else []);
          r1 = drop (length sign) r;
          ds = takeWhile is_digit r1;
          r2 = dropWhile is_digit r1
      in if ds = [] then None
         else case r2 of
           [] \<Rightarrow> None
         | c # t \<Rightarrow>
             if c = CHR '']'' then Some (sign @ ds, length sign + length ds + 1)
             else if c = CHR ''.'' then
               (let fs = takeWhile is_digit t; r3 = dropWhile is_digit t
                in if fs = [] then None
                   else if startsWith_char r3 CHR '']''
                   then Some (sign @ ds @ [c] @ fs, length sign + length ds + length fs + 2)
                   else None)
             else None)"

text \<open>
  \<^verbatim>\<open>((?:(?!\2)[^\\]|\\.)*?)\2\]\<close> on the text after the opening quote \<open>q\<close>: the raw
  quoted text and how many characters were consumed, closing quote and bracket
  included. An unescaped quote ends the text and must be followed by the bracket; a
  backslash takes the next character with it unless that is a line terminator.
\<close>

fun match_quoted :: "char \<Rightarrow> string \<Rightarrow> (string \<times> nat) option" where
  "match_quoted q [] = None"
| "match_quoted q [c] = None"
| "match_quoted q (c # d # t) =
     (if c = q then (if d = CHR '']'' then Some ([], 2) else None)
      else if c = BACKSLASH then
        (if is_line_terminator d then None
         else map_option (\<lambda>(s, n). (c # d # s, n + 2)) (match_quoted q t))
      else map_option (\<lambda>(s, n). (c # s, n + 1)) (match_quoted q (d # t)))"

text \<open>\<^verbatim>\<open>subString.replace(/\\(\\)?/g, '$1')\<close>\<close>

fun unescape :: "string \<Rightarrow> string" where
  "unescape [] = []"
| "unescape [c] = (if c = BACKSLASH then [] else [c])"
| "unescape (c # d # t) =
     (if c = BACKSLASH then (if d = BACKSLASH then d # unescape t else unescape (d # t))
      else c # unescape (d # t))"

text \<open>
  The second alternative on the text after an opening bracket: the key pushed and the
  characters consumed after the bracket.
\<close>

definition match_bracket :: "string \<Rightarrow> (string \<times> nat) option" where
  "match_bracket r =
     (case match_number r of
        Some x \<Rightarrow> Some x
      | None \<Rightarrow>
          (case r of
             [] \<Rightarrow> None
           | q # t \<Rightarrow>
               if is_quote q
               then map_option (\<lambda>(s, n). (unescape s, n + 1)) (match_quoted q t)
               else None))"

text \<open>\<^verbatim>\<open>(?:\.|\[\])\<close>: the text left after a separator or an empty bracket pair.\<close>

definition strip_sep :: "string \<Rightarrow> string option" where
  "strip_sep r =
     (case r of
        [] \<Rightarrow> None
      | c # t \<Rightarrow>
          if c = CHR ''.'' then Some t
          else if c = CHR ''['' \<and> startsWith_char t CHR '']'' then Some (tl t)
          else None)"

text \<open>The third alternative, the lookahead \<^verbatim>\<open>(?=(?:\.|\[\])(?:\.|\[\]|$))\<close>.\<close>

definition empty_key_ahead :: "string \<Rightarrow> bool" where
  "empty_key_ahead r =
     (case strip_sep r of
        None \<Rightarrow> False
      | Some t \<Rightarrow> (case strip_sep t of Some _ \<Rightarrow> True | None \<Rightarrow> t = []))"

text \<open>
  The global scan from the current position. A non-empty match resumes after the
  match; an empty match pushes the empty key and resumes one character further; a
  position where nothing matches is skipped.
\<close>

function scan_path :: "string \<Rightarrow> string list" where
  "scan_path [] = []"
| "scan_path (c # t) =
     (if is_prop_char c
      then (c # takeWhile is_prop_char t) # scan_path (dropWhile is_prop_char t)
      else case (if c = CHR ''['' then match_bracket t else None) of
             Some (key, n) \<Rightarrow> key # scan_path (drop n t)
           | None \<Rightarrow> if empty_key_ahead (c # t) then [] # scan_path t else scan_path t)"
  by pat_completeness auto
termination
  by (relation "measure length") (auto simp: length_dropWhile_le le_imp_less_Suc)

definition stringToPath :: "string \<Rightarrow> string list" where
  "stringToPath s = (if startsWith_char s CHR ''.'' then [[]] else []) @ scan_path s"

definition toPath :: "string \<Rightarrow> string list" where
  "toPath v = stringToPath v"

definition toArray :: "ObjectPath \<Rightarrow> string list" where
  "toArray pth = toPath (toString pth)"

subsection \<open>Constructed paths\<close>

text \<open>
  The paths the module can build: the empty path, one encoded part, and the
  concatenation of two such paths (\<open>extend\<close>, \<open>prefix\<close>, \<open>create\<close> and \<open>fromArray\<close>
  are compositions of these).
\<close>

inductive constructed :: "ObjectPath \<Rightarrow> bool" where
  constructed_EMPTY: "constructed EMPTY"
| constructed_part: "constructed (createPart p)"
| constructed_concat: "constructed a \<Longrightarrow> constructed b \<Longrightarrow> constructed (concat_path a b)"

subsection \<open>Parts that survive the round trip\<close>




text \<open>The parts \<open>createPart\<close> encodes in brackets.\<close>

fun is_index :: "part \<Rightarrow> bool" where
  "is_index (PStr s) = all_digits s"
| "is_index (PNum i) = True"


definition sep_before :: "part list \<Rightarrow> string" where
  "sep_before ps = (case ps of [] \<Rightarrow> [] | q # _ \<Rightarrow> if is_index q then [] else [DELIMITER])"



section \<open>Properties of ObjectPath\<close>

lemma concat_path_empty_right: "concat_path p [] = p"
  by (simp add: concat_path_def)

lemma concat_path_empty_left: "concat_path [] p = p"
  by (simp add: concat_path_def)

text \<open>
  C10: extending any path with the empty-string part returns the path unchanged, and
  \<open>create()\<close> and \<open>create("")\<close> are both the empty path.
\<close>

theorem extend_empty_part_noop:
  "extend p (PStr []) = p \<and> create [] = EMPTY \<and> create [PStr []] = EMPTY"
  by (simp add: extend_def create_def EMPTY_def concat_path_def)

text \<open>
  Associativity holds for all strings but a middle path that is the bare separator \<open>"."\<close>,
  and no constructed path is the bare separator.
\<close>

lemma concat_path_assoc_gen:
  assumes "b \<noteq> [DELIMITER]"
  shows "concat_path (concat_path a b) c = concat_path a (concat_path b c)"
proof (cases "a = [] \<or> b = [] \<or> c = []")
  case True
  then show ?thesis by (auto simp: concat_path_def Let_def)
next
  case False
  then obtain b0 bs where b: "b = b0 # bs" by (cases b) auto
  from False obtain c0 cs where c: "c = c0 # cs" by (cases c) auto
  from False have a: "a \<noteq> []" by simp
  show ?thesis
  proof (cases bs rule: rev_cases)
    case Nil
    with assms b have "b0 \<noteq> DELIMITER" by simp
    with Nil a b c show ?thesis
      by (auto simp: concat_path_def endsWith_char_def startsWith_char_def Let_def DELIMITER_def)
  next
    case (snoc bs' bl)
    with a b c show ?thesis
      by (auto simp: concat_path_def endsWith_char_def startsWith_char_def Let_def DELIMITER_def butlast_append)
  qed
qed

lemma concat_path_bare_separator:
  "concat_path (concat_path ''x.'' ''.'') ''[0]'' = ''x.[0]'' \<and>
   concat_path ''x.'' (concat_path ''.'' ''[0]'') = ''x[0]''"
  by (simp add: concat_path_def endsWith_char_def startsWith_char_def DELIMITER_def)

lemma createPart_not_delimiter: "createPart p \<noteq> [DELIMITER]"
  by (cases p) (auto simp: EMPTY_def DELIMITER_def)

lemma concat_path_not_delimiter:
  assumes "a \<noteq> [DELIMITER]" and "b \<noteq> [DELIMITER]"
  shows "concat_path a b \<noteq> [DELIMITER]"
proof (cases "a = [] \<or> b = []")
  case True
  with assms show ?thesis by (auto simp: concat_path_def)
next
  case False
  then obtain a0 as b0 bs where "a = a0 # as" "b = b0 # bs"
    by (cases a; cases b) auto
  with assms show ?thesis
    by (auto simp: concat_path_def endsWith_char_def startsWith_char_def Let_def DELIMITER_def
        split: if_splits)
qed

lemma constructed_not_delimiter: "constructed p \<Longrightarrow> p \<noteq> [DELIMITER]"
  by (induction rule: constructed.induct)
    (simp_all add: EMPTY_def createPart_not_delimiter concat_path_not_delimiter)

text \<open>
  C8: over constructed paths \<open>concat\<close> is associative, and the empty path is a left
  and a right identity.
\<close>

theorem concat_path_assoc_identity:
  assumes "constructed a" and "constructed b" and "constructed c"
  shows "concat_path (concat_path a b) c = concat_path a (concat_path b c) \<and>
         concat_path EMPTY a = a \<and> concat_path a EMPTY = a"
  using constructed_not_delimiter [OF assms(2)]
  by (simp add: concat_path_assoc_gen EMPTY_def concat_path_empty_left concat_path_empty_right)

theorem concat_path_assoc_identity_witness:
  "constructed (createPart (PStr ''a'')) \<and> constructed (createPart (PNum 0)) \<and>
   constructed (createPart (PStr ''b'')) \<and>
   concat_path (concat_path ''a.'' ''[0]'') ''b.'' = ''a[0].b.'' \<and>
   concat_path ''a.'' (concat_path ''[0]'' ''b.'') = ''a[0].b.''"
  using concat_path_assoc_identity [OF constructed_part [of "PStr ''a''"]
      constructed_part [of "PNum 0"] constructed_part [of "PStr ''b''"]]
    constructed_part [of "PStr ''a''"] constructed_part [of "PNum 0"] constructed_part [of "PStr ''b''"]
  by (simp add: concat_path_def endsWith_char_def startsWith_char_def DELIMITER_def)

lemma trimEnd_prefix: "\<exists>r. q = trimEnd q c @ r"
proof -
  have "rev q = takeWhile (\<lambda>x. x = c) (rev q) @ dropWhile (\<lambda>x. x = c) (rev q)" by simp
  then have "q = rev (dropWhile (\<lambda>x. x = c) (rev q)) @ rev (takeWhile (\<lambda>x. x = c) (rev q))"
    by (metis rev_append rev_rev_ident)
  then show ?thesis unfolding trimEnd_def by blast
qed

lemma trimEnd_snoc_other: "\<not> endsWith_char name c \<Longrightarrow> trimEnd (name @ [c]) c = name"
  by (cases name rule: rev_cases) (auto simp: trimEnd_def endsWith_char_def)

text \<open>
  C7: the empty prefix matches every path; a prefix that ends with the separator matches
  a path only if the path is the trimmed prefix followed by nothing, by the separator or
  by an index bracket; so the prefix \<open>name.\<close> never matches a path that continues the
  name with another character, such as \<open>"field."\<close> against \<open>"fieldOther.x"\<close>.
\<close>

theorem startsWith_separator_prefix:
  "startsWith p EMPTY \<and>
   (endsWith_char q DELIMITER \<and> startsWith p q \<longrightarrow>
      (\<exists>rest. p = trimEnd q DELIMITER @ rest \<and>
         (rest = [] \<or> hd rest = DELIMITER \<or> hd rest = CHR ''[''))) \<and>
   (\<not> endsWith_char name DELIMITER \<and> c \<noteq> DELIMITER \<and> c \<noteq> CHR ''['' \<longrightarrow>
      \<not> startsWith (name @ c # tail_part) (name @ [DELIMITER])) \<and>
   \<not> startsWith ''fieldOther.x'' ''field.''"
proof (intro conjI impI)
  show "startsWith p EMPTY" by (simp add: startsWith_def)
next
  assume h: "endsWith_char q DELIMITER \<and> startsWith p q"
  let ?t = "trimEnd q DELIMITER"
  from h have "q \<noteq> EMPTY" by (auto simp: endsWith_char_def EMPTY_def)
  with h have "string_startsWith p ?t"
    by (auto simp: startsWith_def Let_def split: if_splits)
  then have "p = ?t @ drop (length ?t) p"
    by (metis string_startsWith_def append_take_drop_id)
  then show "\<exists>rest. p = ?t @ rest \<and> (rest = [] \<or> hd rest = DELIMITER \<or> hd rest = CHR ''['')"
    using h \<open>q \<noteq> EMPTY\<close>
    by (intro exI [of _ "drop (length ?t) p"])
      (auto simp: startsWith_def Let_def charAt_def ACCEPTABLE_SUFFIXES_def hd_drop_conv_nth DELIMITER_def
        split: if_splits)
next
  assume h: "\<not> endsWith_char name DELIMITER \<and> c \<noteq> DELIMITER \<and> c \<noteq> CHR ''[''"
  then have "trimEnd (name @ [DELIMITER]) DELIMITER = name" by (simp add: trimEnd_snoc_other)
  with h show "\<not> startsWith (name @ c # tail_part) (name @ [DELIMITER])"
    by (auto simp: startsWith_def Let_def charAt_def ACCEPTABLE_SUFFIXES_def EMPTY_def
        endsWith_char_def string_startsWith_def DELIMITER_def nth_append)
next
  show "\<not> startsWith ''fieldOther.x'' ''field.''"
    by (simp add: startsWith_def Let_def charAt_def ACCEPTABLE_SUFFIXES_def EMPTY_def
        endsWith_char_def string_startsWith_def DELIMITER_def trimEnd_def)
qed

theorem startsWith_separator_prefix_witness:
  "endsWith_char ''field.'' DELIMITER \<and> startsWith ''field[0].x.'' ''field.'' \<and>
   startsWith ''field.x.'' ''field.'' \<and>
   trimEnd ''field.'' DELIMITER = ''field'' \<and>
   \<not> endsWith_char ''field'' DELIMITER \<and> CHR ''O'' \<noteq> DELIMITER \<and>
   \<not> startsWith (''field'' @ CHR ''O'' # ''ther.x.'') (''field'' @ [DELIMITER])"
  using startsWith_separator_prefix [of "''field[0].x.''" "''field.''" "''field''" "CHR ''O''" "''ther.x.''"]
  by (simp add: startsWith_def Let_def charAt_def ACCEPTABLE_SUFFIXES_def EMPTY_def
        endsWith_char_def string_startsWith_def DELIMITER_def trimEnd_def)

text \<open>
  The code accepts the separator and the bracket only: at the end of the string
  \<open>charAt\<close> gives the empty string, which is not the \<open>undefined\<close> of
  \<open>ACCEPTABLE_SUFFIXES\<close>.
\<close>

lemma startsWith_end_of_string: "\<not> startsWith ''field'' ''field.''"
  by (simp add: startsWith_def Let_def charAt_def ACCEPTABLE_SUFFIXES_def EMPTY_def
      endsWith_char_def string_startsWith_def DELIMITER_def trimEnd_def)

section \<open>The round trip through toArray\<close>




lemma is_digit_prop_char: "is_digit c \<Longrightarrow> is_prop_char c"
  by (auto simp: is_digit_def is_prop_char_def)















lemma sep_before_snoc: "sep_before (xs @ [p]) = (if xs = [] then sep_before [p] else sep_before xs)"
  by (cases xs) (simp_all add: sep_before_def)















text \<open>
  Why the indices are bounded: the code renders the number \<open>1.5e21\<close> in exponent form,
  as the path \<open>"[1.5e+21]"\<close>, and \<open>toArray\<close> reads that path back as two keys.
\<close>

lemma toArray_exponent_form: "toArray ''[1.5e+21]'' = [''1'', ''5e+21'']"
  by code_simp

section \<open>Properties of maxSeverity\<close>

lemma sortBy_nonempty: "ds \<noteq> [] \<Longrightarrow> sortBy ds f \<noteq> []"
  by (metis sortBy_def length_sort length_0_conv)

lemma sortBy_head_in: "ds \<noteq> [] \<Longrightarrow> sortBy ds f ! 0 \<in> set ds"
  by (metis sortBy_nonempty sortBy_def set_sort nth_mem length_greater_0_conv)

lemma sortBy_head_least:
  assumes "d' \<in> set ds"
  shows "f (sortBy ds f ! 0) \<le> f d'"
proof -
  have "ds \<noteq> []" using assms by auto
  then have "sortBy ds f \<noteq> []" by (rule sortBy_nonempty)
  then obtain x xs where xs: "sortBy ds f = x # xs" by (cases "sortBy ds f") auto
  have "sorted (map f (x # xs))" using xs by (metis sortBy_def sorted_sort_key)
  moreover have "d' \<in> set (x # xs)" using assms xs by (metis sortBy_def set_sort)
  ultimately have "f x \<le> f d'" by auto
  then show ?thesis using xs by simp
qed

text \<open>Stability: the head of the sorted list is the earliest entry with its key.\<close>

lemma sortBy_head_first:
  assumes "ds \<noteq> []"
  shows "sortBy ds f ! 0 = hd (filter (\<lambda>d. f d = f (sortBy ds f ! 0)) ds)"
proof -
  have "sortBy ds f \<noteq> []" using assms by (rule sortBy_nonempty)
  then obtain x xs where xs: "sortBy ds f = x # xs" by (cases "sortBy ds f") auto
  have "filter (\<lambda>d. f d = f x) (sort_key f ds) = filter (\<lambda>d. f d = f x) ds"
    by (rule sort_key_stable)
  then have "filter (\<lambda>d. f d = f x) ds = x # filter (\<lambda>d. f d = f x) xs"
    using xs by (simp add: sortBy_def)
  then show ?thesis using xs by simp
qed

lemma severity_ordinal_inj: "severity_ordinal a = severity_ordinal b \<Longrightarrow> a = b"
  by (cases a; cases b) auto

text \<open>
  C5, as the claim states it, fails: \<open>maxSeverity\<close> returns a severity, not a
  diagnostic. Two lists whose most severe entries differ give the same result, so the
  result is not the entry.
\<close>

theorem maxSeverity_not_the_entry:
  "(let e1 = \<lparr>message = ''a'', dtype = ''required'', severity = Error, next = None, path = []\<rparr>;
        e2 = \<lparr>message = ''b'', dtype = ''maxLength'', severity = Error, next = None, path = []\<rparr>;
        w = \<lparr>message = ''c'', dtype = ''required'', severity = Warning, next = None, path = []\<rparr>
    in maxSeverity (Some [e1, w]) = Some Error \<and> maxSeverity (Some [e2, w]) = Some Error \<and>
       maxSeverity_spec (Some [e1, w]) = Some e1 \<and> maxSeverity_spec (Some [e2, w]) = Some e2 \<and>
       e1 \<noteq> e2)"
  by (simp add: maxSeverity_def maxSeverity_spec_def sortBy_def Let_def)

text \<open>
  C5, amended: \<open>maxSeverity\<close> of an absent or empty list is null; of a non-empty list it
  is the severity of the entry the specification describes, that is the severity of an
  entry of the list whose ordinal is the lowest, that entry being the earliest one of
  its severity; a list of one Error and one Warning gives the Error severity.
\<close>

theorem maxSeverity_returns_severity:
  "maxSeverity None = None \<and> maxSeverity (Some []) = None \<and>
   maxSeverity ds = map_option severity (maxSeverity_spec ds) \<and>
   (xs \<noteq> [] \<longrightarrow>
      (\<exists>d \<in> set xs. maxSeverity (Some xs) = Some (severity d) \<and>
         (\<forall>d' \<in> set xs. severity_ordinal (severity d) \<le> severity_ordinal (severity d')) \<and>
         maxSeverity_spec (Some xs) =
           Some (hd (filter (\<lambda>d'. severity d' = severity d) xs)))) \<and>
   (severity e = Error \<and> severity w = Warning \<longrightarrow>
      maxSeverity (Some [e, w]) = Some Error \<and> maxSeverity (Some [w, e]) = Some Error)"
proof -
  let ?f = "\<lambda>d. severity_ordinal (severity d)"
  have a: "maxSeverity None = None \<and> maxSeverity (Some []) = None"
    by (simp add: maxSeverity_def)
  have b: "maxSeverity ds = map_option severity (maxSeverity_spec ds)"
    by (simp add: maxSeverity_def maxSeverity_spec_def split: option.splits)
  have c: "\<exists>d \<in> set xs. maxSeverity (Some xs) = Some (severity d) \<and>
         (\<forall>d' \<in> set xs. severity_ordinal (severity d) \<le> severity_ordinal (severity d')) \<and>
         maxSeverity_spec (Some xs) =
           Some (hd (filter (\<lambda>d'. severity d' = severity d) xs))" if ne: "xs \<noteq> []"
  proof (intro bexI conjI)
    show "sortBy xs ?f ! 0 \<in> set xs" using ne by (rule sortBy_head_in)
    show "maxSeverity (Some xs) = Some (severity (sortBy xs ?f ! 0))"
      using ne by (simp add: maxSeverity_def)
    show "\<forall>d' \<in> set xs. ?f (sortBy xs ?f ! 0) \<le> ?f d'"
      using sortBy_head_least [of _ xs ?f] by blast
    have eq: "(\<lambda>d'. severity d' = severity (sortBy xs ?f ! 0)) = (\<lambda>d. ?f d = ?f (sortBy xs ?f ! 0))"
      using severity_ordinal_inj by auto
    show "maxSeverity_spec (Some xs) =
           Some (hd (filter (\<lambda>d'. severity d' = severity (sortBy xs ?f ! 0)) xs))"
      using ne sortBy_head_first [OF ne, of ?f] by (simp add: maxSeverity_spec_def eq)
  qed
  have d: "maxSeverity (Some [e, w]) = Some Error \<and> maxSeverity (Some [w, e]) = Some Error"
    if "severity e = Error \<and> severity w = Warning"
    using that by (simp add: maxSeverity_def sortBy_def)
  show ?thesis
  proof (intro conjI impI)
    show "maxSeverity None = None" using a by (rule conjunct1)
    show "maxSeverity (Some []) = None" using a by (rule conjunct2)
    show "maxSeverity ds = map_option severity (maxSeverity_spec ds)" by (rule b)
    show "\<exists>d \<in> set xs. maxSeverity (Some xs) = Some (severity d) \<and>
         (\<forall>d' \<in> set xs. severity_ordinal (severity d) \<le> severity_ordinal (severity d')) \<and>
         maxSeverity_spec (Some xs) =
           Some (hd (filter (\<lambda>d'. severity d' = severity d) xs))" if "xs \<noteq> []"
      using that by (rule c)
    show "maxSeverity (Some [e, w]) = Some Error" if "severity e = Error \<and> severity w = Warning"
      using d [OF that] by (rule conjunct1)
    show "maxSeverity (Some [w, e]) = Some Error" if "severity e = Error \<and> severity w = Warning"
      using d [OF that] by (rule conjunct2)
  qed
qed

theorem maxSeverity_returns_severity_witness:
  "(let e = \<lparr>message = ''a'', dtype = ''required'', severity = Error, next = None, path = []\<rparr>;
        w = \<lparr>message = ''c'', dtype = ''required'', severity = Warning, next = None, path = []\<rparr>;
        i = \<lparr>message = ''d'', dtype = ''hint'', severity = Info, next = None, path = []\<rparr>
    in [i, w, e] \<noteq> [] \<and> severity e = Error \<and> severity w = Warning \<and>
       maxSeverity (Some [i, w, e]) = Some Error \<and>
       maxSeverity_spec (Some [i, w, e]) = Some e \<and>
       maxSeverity (Some [w, e]) = Some Error)"
  using maxSeverity_returns_severity [of
      "Some [\<lparr>message = ''d'', dtype = ''hint'', severity = Info, next = None, path = []\<rparr>,
             \<lparr>message = ''c'', dtype = ''required'', severity = Warning, next = None, path = []\<rparr>,
             \<lparr>message = ''a'', dtype = ''required'', severity = Error, next = None, path = []\<rparr>]"
      "[\<lparr>message = ''d'', dtype = ''hint'', severity = Info, next = None, path = []\<rparr>,
        \<lparr>message = ''c'', dtype = ''required'', severity = Warning, next = None, path = []\<rparr>,
        \<lparr>message = ''a'', dtype = ''required'', severity = Error, next = None, path = []\<rparr>]"
      "\<lparr>message = ''a'', dtype = ''required'', severity = Error, next = None, path = []\<rparr>"
      "\<lparr>message = ''c'', dtype = ''required'', severity = Warning, next = None, path = []\<rparr>"]
  by (simp add: maxSeverity_def maxSeverity_spec_def sortBy_def Let_def)

section \<open>Properties of the entity and of the hook\<close>

lemmas hook_defs = save_def save_begin_def save_settle_def setInner_def useEntity_render_def
  useEntity_def update_def updateSaved_def setSaving_def unmount_def createSaved_def
  createUnsaved_def latestValue_def isNonVoid_def noValidations_def

text \<open>
  C1: \<open>latestValue\<close> tests the draft for truthiness, not for null. On the entity
  \<open>createUnsaved(0)\<close> the draft \<open>0\<close> is non-null, and the result is the saved value
  \<open>null\<close>, not the draft; on a saved entity with the draft \<open>""\<close> the result is the saved
  value.
\<close>

theorem latestValue_falsy_draft:
  "draft (createUnsaved (JNum 0)) \<noteq> JNull \<and>
   latestValue (createUnsaved (JNum 0)) = JNull \<and>
   latestValue (createUnsaved (JNum 0)) \<noteq> JNum 0 \<and>
   latestValue ((createSaved (JNum 5))\<lparr>draft := JStr []\<rparr>) = JNum 5"
  by (simp add: latestValue_def createUnsaved_def createSaved_def)

text \<open>
  C2: when the session is live at the moment the promise of \<open>save\<close> resolves, the new
  saved value is the promise's result if that is neither null nor undefined and
  otherwise the value \<open>latestValue\<close> gave when \<open>save\<close> was called; the draft is null,
  \<open>isSaving\<close> is false, the diagnostics are the current validator's on the new saved
  value, and the promise returned by \<open>save\<close> resolves.
\<close>

theorem save_resolved_live:
  assumes "s2 = between (useEntity_render validator (snd (save_begin s)))"
    and "\<not> isUnmounted s2"
  shows "(let (s', out) = save validator (Resolved r) between s;
              new_saved = (if isNonVoid r then r else latestValue (liveEntity s))
          in out = Resolved JUndefined \<and>
             saved (inner s') = new_saved \<and>
             draft (inner s') = JNull \<and>
             isSaving (inner s') = Some False \<and>
             diagnostics (inner s') = run (liveValidator s2) new_saved)"
  using assms by (simp add: save_def save_begin_def save_settle_def setInner_def Let_def split_def)

text \<open>
  The scenario of the claim: draft \<open>{a:1}\<close>, saved \<open>{a:0}\<close>, and
  \<open>save(Promise.resolve(undefined))\<close>.
\<close>

theorem save_resolved_live_witness:
  "(let s = useEntity_render noValidations
           (update (JObj [(''a'', JNum 1)])
              (useEntity (JObj [(''a'', JNum 0)]) True noValidations));
        s' = fst (save noValidations (Resolved JUndefined) id s)
    in draft (inner s) = JObj [(''a'', JNum 1)] \<and> saved (inner s) = JObj [(''a'', JNum 0)] \<and>
       \<not> isUnmounted (useEntity_render noValidations (snd (save_begin s))) \<and>
       draft (inner s') = JNull \<and> saved (inner s') = JObj [(''a'', JNum 1)] \<and>
       isSaving (inner s') = Some False)"
  using save_resolved_live [of
      "useEntity_render noValidations (snd (save_begin (useEntity_render noValidations
           (update (JObj [(''a'', JNum 1)])
              (useEntity (JObj [(''a'', JNum 0)]) True noValidations)))))"
      id noValidations
      "useEntity_render noValidations
           (update (JObj [(''a'', JNum 1)])
              (useEntity (JObj [(''a'', JNum 0)]) True noValidations))"
      JUndefined]
  by (simp add: hook_defs Let_def split_def)

text \<open>
  C3: when the session is live at the moment the promise of \<open>save\<close> rejects with \<open>e\<close>,
  \<open>isSaving\<close> becomes false, draft and saved are those of the entity the hook holds
  (and so those of the state, once the hook has rendered it), and the promise returned
  by \<open>save\<close> rejects with \<open>e\<close>.
\<close>

theorem save_rejected_live:
  assumes "\<not> isUnmounted s"
  shows "(let (s', out) = save_settle v (Rejected e) s
          in out = Rejected e \<and>
             isSaving (inner s') = Some False \<and>
             draft (inner s') = draft (liveEntity s) \<and>
             saved (inner s') = saved (liveEntity s) \<and>
             (liveEntity s = inner s \<longrightarrow>
                draft (inner s') = draft (inner s) \<and> saved (inner s') = saved (inner s)))"
  using assms by (simp add: save_settle_def setInner_def)

text \<open>
  The scenario of the claim: draft \<open>{a:1}\<close>, saved \<open>{a:0}\<close>, and
  \<open>save(Promise.reject(err))\<close>.
\<close>

theorem save_rejected_live_witness:
  "(let s = useEntity_render noValidations
           (update (JObj [(''a'', JNum 1)])
              (useEntity (JObj [(''a'', JNum 0)]) True noValidations));
        s2 = useEntity_render noValidations (snd (save_begin s));
        (s', out) = save noValidations (Rejected (JStr ''err'')) id s
    in \<not> isUnmounted s2 \<and> liveEntity s2 = inner s2 \<and> isSaving (inner s2) = Some True \<and>
       draft (inner s') = JObj [(''a'', JNum 1)] \<and> saved (inner s') = JObj [(''a'', JNum 0)] \<and>
       isSaving (inner s') = Some False \<and> out = Rejected (JStr ''err''))"
  using save_rejected_live [of
      "useEntity_render noValidations (snd (save_begin (useEntity_render noValidations
           (update (JObj [(''a'', JNum 1)])
              (useEntity (JObj [(''a'', JNum 0)]) True noValidations)))))"
      "JObj [(''a'', JNum 1)]" "JStr ''err''"]
  by (simp add: hook_defs Let_def split_def)

text \<open>
  C4, as the claim states it, fails: when the session was torn down before the promise
  rejects, the promise returned by \<open>save\<close> still rejects with the error.
\<close>

theorem save_rejected_unmounted_rethrows:
  "(let s = useEntity (JObj [(''a'', JNum 0)]) True noValidations;
        (s', out) = save noValidations (Rejected (JStr ''err'')) unmount s
    in isUnmounted s' \<and> out = Rejected (JStr ''err''))"
  by (simp add: hook_defs Let_def split_def)

text \<open>
  C4, amended: when the session was torn down before the promise settles, settlement
  changes no state; on resolution the promise returned by \<open>save\<close> resolves, and on
  rejection with \<open>e\<close> it rejects with \<open>e\<close>.
\<close>

theorem save_settle_unmounted:
  assumes "isUnmounted s"
  shows "fst (save_settle v outcome s) = s \<and>
         save_settle v (Resolved r) s = (s, Resolved JUndefined) \<and>
         save_settle v (Rejected e) s = (s, Rejected e)"
  using assms by (simp add: save_settle_def split: settled.splits)

theorem save_settle_unmounted_witness:
  "(let s = unmount (useEntity_render noValidations
               (snd (save_begin (useEntity (JObj [(''a'', JNum 0)]) True noValidations))))
    in isUnmounted s \<and> isSaving (inner s) = Some True \<and>
       save_settle (JObj [(''a'', JNum 0)]) (Resolved (JObj [(''a'', JNum 7)])) s
         = (s, Resolved JUndefined) \<and>
       save_settle (JObj [(''a'', JNum 0)]) (Rejected (JStr ''err'')) s
         = (s, Rejected (JStr ''err'')))"
  using save_settle_unmounted [of
      "unmount (useEntity_render noValidations
               (snd (save_begin (useEntity (JObj [(''a'', JNum 0)]) True noValidations))))"
      "JObj [(''a'', JNum 0)]" "Resolved JUndefined" "JObj [(''a'', JNum 7)]" "JStr ''err''"]
  by (simp add: hook_defs Let_def)

text \<open>
  C6: the entity \<open>createUnsaved(0)\<close> held by the hook satisfies the mode invariant;
  after \<open>save(Promise.resolve(undefined))\<close> settles, draft and saved are both null.
  The value captured at save time is \<open>latestValue\<close> of the entity, which is \<open>null\<close>
  for the falsy draft \<open>0\<close>.
\<close>

theorem save_breaks_mode_invariant:
  "(let s = useEntity (JNum 0) False noValidations;
        (s', out) = save noValidations (Resolved JUndefined) id s
    in inner s = (createUnsaved (JNum 0))\<lparr>diagnostics := []\<rparr> \<and>
       mode_invariant (inner s) \<and>
       fst (save_begin s) = JNull \<and>
       draft (inner s') = JNull \<and> saved (inner s') = JNull \<and>
       \<not> mode_invariant (inner s'))"
  by (simp add: hook_defs mode_invariant_def Let_def split_def)

text \<open>
  Over values whose drafts are truthy the operations of the hook keep the mode
  invariant: \<open>latestValue\<close> is then never null, and every operation leaves a state
  with draft or saved populated.
\<close>

lemma latestValue_truthy_draft: "truthy (draft e) \<Longrightarrow> latestValue e = draft e"
  by (simp add: latestValue_def)

lemma latestValue_entity_ok: "entity_ok e \<Longrightarrow> latestValue e \<noteq> JNull"
  by (auto simp: entity_ok_def mode_invariant_def latestValue_def)

lemma entity_ok_create:
  "truthy v \<Longrightarrow> entity_ok (createUnsaved v)" "v \<noteq> JNull \<Longrightarrow> entity_ok (createSaved v)"
  by (auto simp: entity_ok_def mode_invariant_def createUnsaved_def createSaved_def)

lemma entity_ok_useEntity:
  "(if is_saved then v \<noteq> JNull else truthy v) \<Longrightarrow> entity_ok (inner (useEntity v is_saved vd))"
  by (auto simp: entity_ok_def mode_invariant_def useEntity_def createUnsaved_def createSaved_def
      Let_def split: if_splits)

lemma entity_ok_update:
  "truthy v \<Longrightarrow> entity_ok (inner (update v s))"
  by (auto simp: entity_ok_def mode_invariant_def update_def setInner_def)

lemma entity_ok_updateSaved:
  "entity_ok (liveEntity s) \<Longrightarrow> v \<noteq> JNull \<Longrightarrow> entity_ok (inner (updateSaved v s))"
  by (auto simp: entity_ok_def mode_invariant_def updateSaved_def setInner_def)

lemma entity_ok_setSaving:
  "entity_ok (liveEntity s) \<Longrightarrow> entity_ok (inner (setSaving b s))"
  by (auto simp: entity_ok_def mode_invariant_def setSaving_def setInner_def)

lemma entity_ok_render:
  "entity_ok (inner s) \<Longrightarrow>
   entity_ok (inner (useEntity_render vd s)) \<and> entity_ok (liveEntity (useEntity_render vd s))"
  by (auto simp: entity_ok_def mode_invariant_def useEntity_render_def setInner_def Let_def)

lemma entity_ok_save_begin:
  "entity_ok (liveEntity s) \<Longrightarrow>
   fst (save_begin s) \<noteq> JNull \<and> entity_ok (inner (snd (save_begin s)))"
  by (auto simp: entity_ok_def mode_invariant_def save_begin_def setInner_def latestValue_def Let_def)

lemma entity_ok_save_settle:
  "entity_ok (inner s) \<Longrightarrow> entity_ok (liveEntity s) \<Longrightarrow> v \<noteq> JNull \<Longrightarrow>
   entity_ok (inner (fst (save_settle v outcome s)))"
  by (auto simp: entity_ok_def mode_invariant_def save_settle_def setInner_def Let_def isNonVoid_def
      split: settled.splits)

end
